theory Spec2Isabelle
  imports Complex_Main
begin

section \<open>Text\<close>

text \<open>
  A Python \<open>str\<close> is a \<^typ>\<open>string\<close>. The program only ever inspects ASCII
  characters (comma, double quote, line ends, the address specials) and asks whether a
  text is pure ASCII, so a \<^typ>\<open>char\<close> above 127 stands for non-ASCII text.
\<close>

abbreviation NL :: char where "NL \<equiv> CHR 0x0A"
abbreviation CR :: char where "CR \<equiv> CHR 0x0D"
abbreviation DQUOTE :: char where "DQUOTE \<equiv> CHR 0x22"
abbreviation BACKSLASH :: char where "BACKSLASH \<equiv> CHR 0x5C"

text \<open>\<open>sep.join(xs)\<close>.\<close>

fun join :: "string \<Rightarrow> string list \<Rightarrow> string" where
  "join sep [] = []"
| "join sep [x] = x"
| "join sep (x # y # ys) = x @ sep @ join sep (y # ys)"

text \<open>\<open>s.split(c, 1)\<close> for a one-character separator: at most one cut, at the first \<open>c\<close>.\<close>

definition split_once :: "char \<Rightarrow> string \<Rightarrow> string list" where
  "split_once c s =
     (if c \<in> set s then [takeWhile (\<lambda>x. x \<noteq> c) s, tl (dropWhile (\<lambda>x. x \<noteq> c) s)]
      else [s])"

text \<open>\<open>'%d' % n\<close> for a natural number.\<close>

function str_nat :: "nat \<Rightarrow> string" where
  "str_nat n =
     (if n < 10 then [''0123456789'' ! n]
      else str_nat (n div 10) @ [''0123456789'' ! (n mod 10)])"
  by pat_completeness auto
termination
  by (relation "measure id") auto

declare str_nat.simps [simp del]

text \<open>The exceptions that can leave \<open>main\<close>.\<close>

datatype error =
    ValueError string
  | UnicodeEncodeError
  | CsvError string
  | LibraryError string

section \<open>The standard library's CSV reader, default dialect\<close>

text \<open>
  \<open>reader(args.names)\<close> uses the dialect \<open>excel\<close>: delimiter comma, quote character
  \<open>"\<close> with doubling, no escape character, not strict. The reader is a state machine fed
  one character at a time and an end-of-line mark (\<open>None\<close>) after each line; the states
  for an escape character cannot be reached in this dialect and are left out. It raises
  when a field grows beyond the field limit of 131072 characters, and when a character
  other than a line end follows a line end outside quotes.
\<close>

datatype ParserState =
    START_RECORD | START_FIELD | IN_FIELD | IN_QUOTED_FIELD | QUOTE_IN_QUOTED_FIELD | EAT_CRNL

record ReaderObj =
  state :: ParserState
  fields_list :: "string list"
  field_buf :: string

definition field_limit :: nat where
  "field_limit = 131072"

definition parse_reset :: ReaderObj where
  "parse_reset = \<lparr>state = START_RECORD, fields_list = [], field_buf = []\<rparr>"

definition parse_save_field :: "ReaderObj \<Rightarrow> ReaderObj" where
  "parse_save_field self = self\<lparr>fields_list := fields_list self @ [field_buf self], field_buf := []\<rparr>"

definition parse_add_char :: "ReaderObj \<Rightarrow> char \<Rightarrow> error + ReaderObj" where
  "parse_add_char self c =
     (if field_limit \<le> length (field_buf self)
      then Inl (CsvError ''field larger than field limit (131072)'')
      else Inr (self\<lparr>field_buf := field_buf self @ [c]\<rparr>))"

definition add_char_then :: "ParserState \<Rightarrow> ReaderObj \<Rightarrow> char \<Rightarrow> error + ReaderObj" where
  "add_char_then s self c =
     (case parse_add_char self c of Inl e \<Rightarrow> Inl e | Inr r \<Rightarrow> Inr (r\<lparr>state := s\<rparr>))"

text \<open>The branch \<open>case START_FIELD\<close>, which \<open>case START_RECORD\<close> falls through to.\<close>

definition start_field :: "ReaderObj \<Rightarrow> char option \<Rightarrow> error + ReaderObj" where
  "start_field self c =
     (case c of
        None \<Rightarrow> Inr ((parse_save_field self)\<lparr>state := START_RECORD\<rparr>)
      | Some ch \<Rightarrow>
          if ch = NL \<or> ch = CR then Inr ((parse_save_field self)\<lparr>state := EAT_CRNL\<rparr>)
          else if ch = DQUOTE then Inr (self\<lparr>state := IN_QUOTED_FIELD\<rparr>)
          else if ch = CHR '','' then Inr (parse_save_field self)
          else add_char_then IN_FIELD self ch)"

definition parse_process_char :: "ReaderObj \<Rightarrow> char option \<Rightarrow> error + ReaderObj" where
  "parse_process_char self c =
     (case state self of
        START_RECORD \<Rightarrow>
          (case c of
             None \<Rightarrow> Inr self
           | Some ch \<Rightarrow>
               if ch = NL \<or> ch = CR then Inr (self\<lparr>state := EAT_CRNL\<rparr>)
               else start_field (self\<lparr>state := START_FIELD\<rparr>) c)
      | START_FIELD \<Rightarrow> start_field self c
      | IN_FIELD \<Rightarrow>
          (case c of
             None \<Rightarrow> Inr ((parse_save_field self)\<lparr>state := START_RECORD\<rparr>)
           | Some ch \<Rightarrow>
               if ch = NL \<or> ch = CR then Inr ((parse_save_field self)\<lparr>state := EAT_CRNL\<rparr>)
               else if ch = CHR '','' then Inr ((parse_save_field self)\<lparr>state := START_FIELD\<rparr>)
               else parse_add_char self ch)
      | IN_QUOTED_FIELD \<Rightarrow>
          (case c of
             None \<Rightarrow> Inr self
           | Some ch \<Rightarrow>
               if ch = DQUOTE then Inr (self\<lparr>state := QUOTE_IN_QUOTED_FIELD\<rparr>)
               else parse_add_char self ch)
      | QUOTE_IN_QUOTED_FIELD \<Rightarrow>
          (case c of
             None \<Rightarrow> Inr ((parse_save_field self)\<lparr>state := START_RECORD\<rparr>)
           | Some ch \<Rightarrow>
               if ch = DQUOTE then add_char_then IN_QUOTED_FIELD self ch
               else if ch = CHR '','' then Inr ((parse_save_field self)\<lparr>state := START_FIELD\<rparr>)
               else if ch = NL \<or> ch = CR then Inr ((parse_save_field self)\<lparr>state := EAT_CRNL\<rparr>)
               else add_char_then IN_FIELD self ch)
      | EAT_CRNL \<Rightarrow>
          (case c of
             None \<Rightarrow> Inr (self\<lparr>state := START_RECORD\<rparr>)
           | Some ch \<Rightarrow>
               if ch = NL \<or> ch = CR then Inr self
               else Inl (CsvError (''new-line character seen in unquoted field - do you need '' @
                                   ''to open the file with newline='' @ [CHR 0x27, CHR 0x27] @ ''?''))))"

text \<open>One line of input: every character, then the end-of-line mark.\<close>

fun feed_line :: "ReaderObj \<Rightarrow> string \<Rightarrow> error + ReaderObj" where
  "feed_line self [] = parse_process_char self None"
| "feed_line self (c # cs) =
     (case parse_process_char self (Some c) of
        Inl e \<Rightarrow> Inl e
      | Inr self' \<Rightarrow> feed_line self' cs)"

text \<open>
  \<open>list(reader(lines))\<close>. A record is complete when a line ends in state
  \<open>START_RECORD\<close>, and the next one starts from \<open>parse_reset\<close>; otherwise (inside a
  quoted field) the next line continues it. When the input ends inside a record, the
  record is delivered with the field read so far.
\<close>

fun read_rows :: "ReaderObj \<Rightarrow> string list \<Rightarrow> error + string list list" where
  "read_rows self [] =
     (if field_buf self \<noteq> [] \<or> state self = IN_QUOTED_FIELD
      then Inr [fields_list (parse_save_field self)]
      else Inr [])"
| "read_rows self (l # ls) =
     (case feed_line self l of
        Inl e \<Rightarrow> Inl e
      | Inr self' \<Rightarrow>
          if state self' \<noteq> START_RECORD then read_rows self' ls
          else (case read_rows parse_reset ls of
                  Inl e \<Rightarrow> Inl e
                | Inr rows \<Rightarrow> Inr (fields_list self' # rows)))"

definition reader :: "string list \<Rightarrow> error + string list list" where
  "reader lines = read_rows parse_reset lines"

section \<open>Addresses\<close>

definition is_ascii :: "char \<Rightarrow> bool" where
  "is_ascii c = ((of_char c :: nat) < 128)"

text \<open>The characters of \<open>specialsre\<close>, and the substitution of \<open>escapesre\<close>.\<close>

definition specials :: string where
  "specials = ''][()<>@,:;.'' @ [BACKSLASH, DQUOTE]"

fun escape :: "string \<Rightarrow> string" where
  "escape [] = []"
| "escape (c # cs) =
     (if c = BACKSLASH \<or> c = DQUOTE then BACKSLASH # c # escape cs else c # escape cs)"

text \<open>
  \<open>email.utils.formataddr\<close>. The encoding of a non-ASCII display name is the parameter
  \<open>header_encode\<close>.
\<close>

definition formataddr :: "(string \<Rightarrow> string) \<Rightarrow> string \<times> string \<Rightarrow> error + string" where
  "formataddr header_encode pair =
     (case pair of (name, address) \<Rightarrow>
        if \<not> list_all is_ascii address then Inl UnicodeEncodeError
        else if name \<noteq> [] then
          (if \<not> list_all is_ascii name
           then Inr (header_encode name @ '' <'' @ address @ ''>'')
           else let quotes = (if list_ex (\<lambda>c. c \<in> set specials) name then [DQUOTE] else [])
                in Inr (quotes @ escape name @ quotes @ '' <'' @ address @ ''>''))
        else Inr address)"

section \<open>Messages\<close>

record Message =
  headers :: "(string \<times> string) list"
  payload :: "string option"

definition new_Message :: Message where
  "new_Message = \<lparr>headers = [], payload = None\<rparr>"

definition add_header :: "string \<Rightarrow> string \<Rightarrow> Message \<Rightarrow> Message" where
  "add_header name v m = m\<lparr>headers := headers m @ [(name, v)]\<rparr>"

definition set_payload :: "string \<Rightarrow> Message \<Rightarrow> Message" where
  "set_payload p m = m\<lparr>payload := Some p\<rparr>"

text \<open>\<open>html % body\<close>, for the module's constant \<open>html\<close>.\<close>

definition html_doc :: "string \<Rightarrow> string" where
  "html_doc body =
     ''<!doctype html>'' @ [NL] @
     ''<html lang='' @ [DQUOTE] @ ''en'' @ [DQUOTE] @ ''>'' @ [NL] @
     ''<body>'' @ [NL] @
     body @ [NL] @
     ''</body>'' @ [NL] @
     ''</html>'' @ [NL]"

text \<open>Lines 165 to 171 of \<open>main\<close>: the message object before serialisation.\<close>

definition build_message :: "string \<Rightarrow> string \<Rightarrow> string \<Rightarrow> string \<Rightarrow> Message" where
  "build_message from_value recipient subject body =
     set_payload (html_doc body)
       (add_header ''Content-Type'' (''text/html; charset='' @ [DQUOTE] @ ''utf-8'' @ [DQUOTE])
         (add_header ''MIME-Version'' ''1.0''
           (add_header ''Subject'' subject
             (add_header ''To'' recipient
               (add_header ''From'' from_value new_Message)))))"

section \<open>Arguments, libraries and the outside world\<close>

text \<open>
  The parsed command line. \<open>names\<close> is the sequence of lines that iterating the names
  file yields (each with its line end), \<open>message\<close> the text of the message file. The
  interval is a float that the program only hands to \<open>sleep\<close>; its type is left open.
\<close>

record 'f args =
  names :: "string list"
  message :: string
  html :: bool
  sender :: string
  interval :: 'f
  hostname :: string
  port :: int
  tls :: bool
  username :: "string option"
  password :: "string option"
  test :: bool

text \<open>
  The functions of \<open>email\<close>, \<open>jinja2\<close> and \<open>markdown\<close> that \<open>main\<close> calls and that are
  not modelled above are parameters; \<open>'t\<close> is the type of a compiled template.
\<close>

record 't lib =
  parseaddr :: "string \<Rightarrow> string \<times> string"
  header_encode :: "string \<Rightarrow> string"
  from_string :: "string \<Rightarrow> error + 't"
  render :: "'t \<Rightarrow> (string \<rightharpoonup> string) \<Rightarrow> error + string"
  markdown :: "string \<Rightarrow> string"
  as_string :: "Message \<Rightarrow> error + string"

text \<open>The calls made on the SMTP server, and what the program does that can be observed.\<close>

datatype smtp_call =
    Connect string int
  | Starttls
  | Login "string option" "string option"
  | Sendmail string string string

datatype 'f event =
    Print string
  | Input string
  | Getpass string
  | Call smtp_call
  | Sleep 'f

text \<open>
  The world answers: what the user types at a prompt, whether an SMTP call raises
  (\<open>Some\<close> of the exception's text) and how it changes the server's state \<open>'w\<close>, and
  whether \<open>sleep\<close> raises.
\<close>

record ('w, 'f) world =
  input :: "string \<Rightarrow> string"
  getpass :: "string \<Rightarrow> string"
  smtp :: "'w \<Rightarrow> smtp_call \<Rightarrow> string option \<times> 'w"
  sleep :: "'f \<Rightarrow> string option"
  server :: 'w

section \<open>The program\<close>

text \<open>Lines 129 to 134: the prompts for missing credentials.\<close>

definition falsy :: "string option \<Rightarrow> bool" where
  "falsy v = (v = None \<or> v = Some [])"

definition tls_prompt :: "('w, 'f) world \<Rightarrow> 'f args \<Rightarrow> 'f event list \<times> 'f args" where
  "tls_prompt W A =
     (if tls A then
        (let (ev1, A1) =
               (if falsy (username A)
                then ([Input ''Username: ''], A\<lparr>username := Some (input W ''Username: '')\<rparr>)
                else ([], A));
             (ev2, A2) =
               (if falsy (password A1)
                then ([Getpass ''Password: ''], A1\<lparr>password := Some (getpass W ''Password: '')\<rparr>)
                else ([], A1))
         in (Print (''TLS enabled.'' @ [NL]) # ev1 @ ev2, A2))
      else ([], A))"

text \<open>The locals of \<open>main\<close> that stay fixed during the loop.\<close>

record 't locals =
  sender_email :: string
  raw_subject :: 't
  raw_body :: 't
  total :: nat

text \<open>
  Lines 135 to 149: the sender's context entries, the split of the message into subject
  and body, the two templates, and the rows of the names file. Any exception here leaves
  \<open>main\<close>.
\<close>

definition prepare ::
  "'t lib \<Rightarrow> 'f args \<Rightarrow> error + ((string \<rightharpoonup> string) \<times> 't locals \<times> string list list)" where
  "prepare L A =
     (case parseaddr L (sender A) of (s_name, s_email) \<Rightarrow>
       (case formataddr (header_encode L) (s_name, s_email) of
          Inl e \<Rightarrow> Inl e
        | Inr sender_value \<Rightarrow>
           (case split_once NL (message A) of
              [subject_text, body_text] \<Rightarrow>
                (case from_string L subject_text of
                   Inl e \<Rightarrow> Inl e
                 | Inr subject_template \<Rightarrow>
                    (case from_string L (if \<not> html A then markdown L body_text else body_text) of
                       Inl e \<Rightarrow> Inl e
                     | Inr body_template \<Rightarrow>
                        (case reader (names A) of
                           Inl e \<Rightarrow> Inl e
                         | Inr addresses \<Rightarrow>
                             Inr ([''sender_name'' \<mapsto> s_name, ''sender_email'' \<mapsto> s_email,
                                   ''sender'' \<mapsto> sender_value],
                                  \<lparr>sender_email = s_email, raw_subject = subject_template,
                                   raw_body = body_template, total = length addresses\<rparr>,
                                  addresses))))
            | _ \<Rightarrow> Inl (ValueError ''not enough values to unpack (expected 2, got 1)''))))"

text \<open>
  The \<open>try\<close> block, lines 177 to 189. The SMTP calls are made in order; the first one that
  raises ends the block, and the handler prints the exception's text. \<open>do_calls\<close> gives
  the calls that were made, whether the last one raised, and the server's new state.
\<close>

definition smtp_calls :: "'f args \<Rightarrow> string \<Rightarrow> string \<Rightarrow> string \<Rightarrow> smtp_call list" where
  "smtp_calls A from_addr recipient msg =
     Connect (hostname A) (port A) #
     (if tls A then [Starttls, Login (username A) (password A)] else []) @
     [Sendmail from_addr recipient msg]"

fun do_calls ::
  "('w \<Rightarrow> smtp_call \<Rightarrow> string option \<times> 'w) \<Rightarrow> 'w \<Rightarrow> smtp_call list
     \<Rightarrow> smtp_call list \<times> string option \<times> 'w" where
  "do_calls srv w [] = ([], None, w)"
| "do_calls srv w (c # cs) =
     (case srv w c of
        (Some e, w') \<Rightarrow> ([c], Some e, w')
      | (None, w') \<Rightarrow>
          (case do_calls srv w' cs of (made, r, w'') \<Rightarrow> (c # made, r, w'')))"

definition send_live ::
  "('w, 'f) world \<Rightarrow> 'f args \<Rightarrow> 'w \<Rightarrow> string \<Rightarrow> string \<Rightarrow> string \<Rightarrow> 'f event list \<times> 'w" where
  "send_live W A w from_addr recipient msg =
     (case do_calls (smtp W) w (smtp_calls A from_addr recipient msg) of
        (made, Some e, w') \<Rightarrow> (map Call made @ [Print (e @ [NL])], w')
      | (made, None, w') \<Rightarrow>
          (case sleep W (interval A) of
             None \<Rightarrow> (map Call made @ [Print (''OK'' @ [NL]), Sleep (interval A)], w')
           | Some e \<Rightarrow>
               (map Call made @ [Print (''OK'' @ [NL]), Sleep (interval A), Print (e @ [NL])],
                w')))"

text \<open>The progress line, printed without a line end.\<close>

definition progress :: "nat \<Rightarrow> nat \<Rightarrow> string \<Rightarrow> string" where
  "progress index n recipient =
     str_nat (index + 1) @ '' / '' @ str_nat n @ '': '' @ recipient @ ''... ''"

definition diagnostic :: "string list \<Rightarrow> string" where
  "diagnostic line =
     ''Improperly formatted user: '' @ [DQUOTE] @ join '','' line @ [DQUOTE] @ ''.'' @ [NL]"

text \<open>
  One pass through the loop body, lines 151 to 189, for the row \<open>line\<close> at position
  \<open>index\<close>: what is printed and called, and either the exception that leaves \<open>main\<close> or
  the context dictionary and server state that the next pass starts from.
\<close>

definition loop_body ::
  "'t lib \<Rightarrow> ('w, 'f) world \<Rightarrow> 'f args \<Rightarrow> 't locals \<Rightarrow> nat \<Rightarrow> (string \<rightharpoonup> string) \<Rightarrow> 'w
     \<Rightarrow> string list \<Rightarrow> 'f event list \<times> (error + (string \<rightharpoonup> string) \<times> 'w)" where
  "loop_body L W A loc index kwargs w line =
     (if line = [] then ([], Inr (kwargs, w))
      else
        (case line of
           [name, email] \<Rightarrow>
             (case formataddr (header_encode L) (name, email) of
                Inl e \<Rightarrow> ([], Inl e)
              | Inr recipient \<Rightarrow>
                 (let kwargs' = kwargs(''name'' \<mapsto> name, ''email'' \<mapsto> email,
                                       ''recipient'' \<mapsto> recipient);
                      shown = Print (progress index (total loc) recipient)
                  in
                   (case render L (raw_subject loc) kwargs' of
                      Inl e \<Rightarrow> ([shown], Inl e)
                    | Inr subject \<Rightarrow>
                       (case render L (raw_body loc) kwargs' of
                          Inl e \<Rightarrow> ([shown], Inl e)
                        | Inr body \<Rightarrow>
                           (case as_string L (build_message (sender A) recipient subject body) of
                              Inl e \<Rightarrow> ([shown], Inl e)
                            | Inr msg \<Rightarrow>
                               (if test A
                                then ([shown, Print (''Testing'' @ [NL]), Print (msg @ [NL])],
                                      Inr (kwargs', w))
                                else
                                  (case send_live W A w (sender_email loc) recipient msg of
                                     (ev, w') \<Rightarrow> (shown # ev, Inr (kwargs', w')))))))))
         | _ \<Rightarrow> ([Print (diagnostic line)], Inr (kwargs, w))))"

fun for_loop ::
  "'t lib \<Rightarrow> ('w, 'f) world \<Rightarrow> 'f args \<Rightarrow> 't locals \<Rightarrow> nat \<Rightarrow> (string \<rightharpoonup> string) \<Rightarrow> 'w
     \<Rightarrow> string list list \<Rightarrow> 'f event list \<times> error option" where
  "for_loop L W A loc index kwargs w [] = ([], None)"
| "for_loop L W A loc index kwargs w (line # rest) =
     (case loop_body L W A loc index kwargs w line of
        (ev, Inl e) \<Rightarrow> (ev, Some e)
      | (ev, Inr (kwargs', w')) \<Rightarrow>
          (case for_loop L W A loc (Suc index) kwargs' w' rest of
             (ev', r) \<Rightarrow> (ev @ ev', r)))"

text \<open>
  \<open>main\<close>, after \<open>parse_args\<close>: the trace of what it did, and \<open>None\<close> when it returns or
  \<open>Some\<close> of the exception that ends it.
\<close>

definition main :: "'t lib \<Rightarrow> ('w, 'f) world \<Rightarrow> 'f args \<Rightarrow> 'f event list \<times> error option" where
  "main L W A0 =
     (case tls_prompt W A0 of (ev0, A) \<Rightarrow>
       (case prepare L A of
          Inl e \<Rightarrow> (ev0, Some e)
        | Inr (kwargs, loc, addresses) \<Rightarrow>
           (case for_loop L W A loc 0 kwargs (server W) addresses of
              (ev, r) \<Rightarrow> (ev0 @ ev, r))))"

section \<open>Reading a trace\<close>

fun calls_of :: "'f event list \<Rightarrow> smtp_call list" where
  "calls_of [] = []"
| "calls_of (Call c # es) = c # calls_of es"
| "calls_of (e # es) = calls_of es"

fun is_connect :: "smtp_call \<Rightarrow> bool" where
  "is_connect (Connect h p) = True"
| "is_connect c = False"

fun is_sendmail :: "smtp_call \<Rightarrow> bool" where
  "is_sendmail (Sendmail f r m) = True"
| "is_sendmail c = False"

text \<open>How many connections a run opened, and what it handed to \<open>sendmail\<close>.\<close>

definition connects :: "'f event list \<Rightarrow> nat" where
  "connects tr = length (filter is_connect (calls_of tr))"

definition sends :: "'f event list \<Rightarrow> smtp_call list" where
  "sends tr = filter is_sendmail (calls_of tr)"

text \<open>
  What the specification describes for the names file: a line cut at every comma and
  nothing else, and the document template it quotes for the payload.
\<close>

fun cut :: "string \<Rightarrow> string \<Rightarrow> string list" where
  "cut cur [] = [cur]"
| "cut cur (c # cs) = (if c = CHR '','' then cur # cut [] cs else cut (cur @ [c]) cs)"

definition comma_split :: "string \<Rightarrow> string list" where
  "comma_split l = cut [] l"

text \<open>A character without a meaning of its own for the CSV reader: no quote, no line end.\<close>

definition plain :: "char \<Rightarrow> bool" where
  "plain c = (c \<noteq> DQUOTE \<and> c \<noteq> NL \<and> c \<noteq> CR)"


text \<open>
  The shape of a dry run's output for the rows from position \<open>i\<close> on, of \<open>n\<close> rows in
  all, given the serialised messages \<open>ms\<close> of the rows with two fields, in order: nothing
  for an empty row, the diagnostic for a malformed one, and the progress line, \<open>Testing\<close>
  and the message for a row with two fields.
\<close>

fun dry_run :: "(string \<Rightarrow> string) \<Rightarrow> nat \<Rightarrow> nat \<Rightarrow> string list list \<Rightarrow> string list \<Rightarrow> 'f event list" where
  "dry_run enc i n [] ms = []"
| "dry_run enc i n ([name, email] # rows) ms =
     (case (formataddr enc (name, email), ms) of
        (Inr recipient, m # ms') \<Rightarrow>
          [Print (progress i n recipient), Print (''Testing'' @ [NL]), Print (m @ [NL])] @
          dry_run enc (Suc i) n rows ms'
      | _ \<Rightarrow> [])"
| "dry_run enc i n (row # rows) ms =
     (if row = [] then [] else [Print (diagnostic row)]) @ dry_run enc (Suc i) n rows ms"

section \<open>Concrete libraries, worlds and command lines\<close>

text \<open>
  Instances of the parameters, for running \<open>main\<close> on concrete inputs. Each agrees with
  the real library on the inputs used below: \<open>parseaddr\<close> of a bare address and of an
  address in angle brackets gives an empty name and the address; a template without
  placeholders compiles and renders to its own text; \<open>markdown\<close> wraps one line of plain
  text in a paragraph; a message with short ASCII header values serialises to its header
  lines, an empty line and the payload.
\<close>

definition sample_parseaddr :: "string \<Rightarrow> string \<times> string" where
  "sample_parseaddr s =
     (if s = ''<bob@example.com>'' then ([], ''bob@example.com'') else ([], s))"

definition sample_as_string :: "Message \<Rightarrow> error + string" where
  "sample_as_string m =
     Inr (concat (map (\<lambda>(h, v). h @ '': '' @ v @ [NL]) (headers m)) @ [NL] @
          (case payload m of None \<Rightarrow> [] | Some p \<Rightarrow> p))"

definition sample_lib :: "string lib" where
  "sample_lib =
     \<lparr>parseaddr = sample_parseaddr, header_encode = (\<lambda>s. s), from_string = Inr,
      render = (\<lambda>t kwargs. Inr t), markdown = (\<lambda>s. ''<p>'' @ s @ ''</p>''),
      as_string = sample_as_string\<rparr>"

text \<open>A server that accepts everything, one that refuses every connection, one that
  rejects the first recipient only, and one that rejects every login.\<close>

definition ok_world :: "(unit, rat) world" where
  "ok_world =
     \<lparr>input = (\<lambda>p. ''user''), getpass = (\<lambda>p. ''secret''), smtp = (\<lambda>w c. (None, w)),
      sleep = (\<lambda>t. None), server = ()\<rparr>"

definition refusing_world :: "(unit, rat) world" where
  "refusing_world =
     ok_world\<lparr>smtp := (\<lambda>w c. (case c of Connect h p \<Rightarrow> Some ''Connection refused'' | _ \<Rightarrow> None, w))\<rparr>"

definition rejecting_world :: "(unit, rat) world" where
  "rejecting_world =
     ok_world\<lparr>smtp := (\<lambda>w c. (case c of
                  Sendmail f r m \<Rightarrow> if r = ''Al <al@x.org>'' then Some ''Rejected'' else None
                | _ \<Rightarrow> None, w))\<rparr>"

definition bad_login_world :: "(unit, rat) world" where
  "bad_login_world =
     ok_world\<lparr>smtp := (\<lambda>w c. (case c of Login u p \<Rightarrow> Some ''Authentication failed'' | _ \<Rightarrow> None, w))\<rparr>"

definition sample_args :: "rat args" where
  "sample_args =
     \<lparr>names = [''Al,al@x.org'' @ [NL], ''Bo,bo@x.org'' @ [NL]],
      message = ''Hi'' @ [NL] @ ''Yo'',
      html = True, sender = ''me@x.org'', interval = 1 / 4, hostname = ''localhost'',
      port = 25, tls = False, username = None, password = None, test = False\<rparr>"

section \<open>Evaluating runs\<close>

text \<open>
  The defining equations needed to run the model on a concrete input. They are used with
  the weak congruence rule for pairs, so that the simplifier computes a pair before it
  looks at what is done with it.
\<close>

lemmas csv_defs =
  reader_def parse_reset_def parse_process_char_def start_field_def add_char_then_def
  parse_add_char_def parse_save_field_def field_limit_def

lemmas run_defs =
  main_def tls_prompt_def falsy_def prepare_def formataddr_def is_ascii_def specials_def
  split_once_def csv_defs loop_body_def progress_def diagnostic_def str_nat.simps
  build_message_def add_header_def set_payload_def new_Message_def html_doc_def
  send_live_def smtp_calls_def do_calls.simps for_loop.simps Let_def

lemmas sample_defs =
  sample_args_def sample_lib_def sample_parseaddr_def sample_as_string_def
  ok_world_def refusing_world_def rejecting_world_def bad_login_world_def

section \<open>The split of the message\<close>

lemma split_once_first: "c \<notin> set s \<Longrightarrow> split_once c (s @ c # b) = [s, b]"
  by (induction s) (auto simp: split_once_def)


section \<open>The credential prompts\<close>


lemma tls_prompt_keeps:
  "message (snd (tls_prompt W A)) = message A"
  "names (snd (tls_prompt W A)) = names A"
  "html (snd (tls_prompt W A)) = html A"
  "sender (snd (tls_prompt W A)) = sender A"
  "test (snd (tls_prompt W A)) = test A"
  "tls (snd (tls_prompt W A)) = tls A"
  "hostname (snd (tls_prompt W A)) = hostname A"
  "port (snd (tls_prompt W A)) = port A"
  "interval (snd (tls_prompt W A)) = interval A"
  by (simp_all add: tls_prompt_def Let_def)

lemma tls_prompt_update:
  "tls_prompt W (A\<lparr>names := ns\<rparr>) =
     (fst (tls_prompt W A), (snd (tls_prompt W A))\<lparr>names := ns\<rparr>)"
  "tls_prompt W (A\<lparr>html := h, message := m\<rparr>) =
     (fst (tls_prompt W A), (snd (tls_prompt W A))\<lparr>html := h, message := m\<rparr>)"
  by (simp_all add: tls_prompt_def Let_def)

lemma main_unfold:
  "main L W A =
     (case prepare L (snd (tls_prompt W A)) of
        Inl e \<Rightarrow> (fst (tls_prompt W A), Some e)
      | Inr (kwargs, loc, addresses) \<Rightarrow>
          (fst (tls_prompt W A) @
             fst (for_loop L W (snd (tls_prompt W A)) loc 0 kwargs (server W) addresses),
           snd (for_loop L W (snd (tls_prompt W A)) loc 0 kwargs (server W) addresses)))"
  by (simp add: main_def split: prod.splits sum.splits)

section \<open>Before the loop\<close>



lemma prepare_split:
  assumes "NL \<notin> set s" and "message A = s @ NL # b" and "prepare L A = Inr (kw, loc, rows)"
  shows "from_string L s = Inr (raw_subject loc) \<and>
         from_string L (if html A then b else markdown L b) = Inr (raw_body loc)"
  using assms by (auto simp: prepare_def split_once_first split: prod.splits sum.splits if_splits)

section \<open>The CSV reader on lines without quotes\<close>

lemma cut_nonempty: "cut cur l \<noteq> []"
  by (induction l arbitrary: cur) auto

lemma join_cons: "fs \<noteq> [] \<Longrightarrow> join sep (f # fs) = f @ sep @ join sep fs"
  by (cases fs) simp_all

lemma join_cut: "join '','' (cut cur l) = cur @ l"
  by (induction l arbitrary: cur) (simp_all add: join_cons cut_nonempty)

lemma join_comma_split: "join '','' (comma_split l) = l"
  by (simp add: comma_split_def join_cut)

lemma feed_plain:
  assumes "list_all plain l" and "length cur + length l \<le> field_limit"
    and "s = START_FIELD \<or> s = IN_FIELD"
  shows "feed_line \<lparr>state = s, fields_list = fs, field_buf = cur\<rparr> (l @ [NL]) =
         Inr \<lparr>state = START_RECORD, fields_list = fs @ cut cur l, field_buf = []\<rparr>"
  using assms
proof (induction l arbitrary: s fs cur)
  case Nil
  then show ?case
    by (auto simp: parse_process_char_def start_field_def parse_save_field_def)
next
  case (Cons c l)
  from Cons.prems have p: "plain c" "list_all plain l" by simp_all
  show ?case
  proof (cases "c = CHR '',''")
    case True
    have "parse_process_char \<lparr>state = s, fields_list = fs, field_buf = cur\<rparr> (Some c) =
          Inr \<lparr>state = START_FIELD, fields_list = fs @ [cur], field_buf = []\<rparr>"
      using True Cons.prems(3)
      by (auto simp: parse_process_char_def start_field_def parse_save_field_def)
    moreover have "feed_line \<lparr>state = START_FIELD, fields_list = fs @ [cur], field_buf = []\<rparr>
          (l @ [NL]) =
        Inr \<lparr>state = START_RECORD, fields_list = (fs @ [cur]) @ cut [] l, field_buf = []\<rparr>"
      using p(2) Cons.prems(2) by (intro Cons.IH) simp_all
    ultimately show ?thesis using True by simp
  next
    case False
    have "parse_process_char \<lparr>state = s, fields_list = fs, field_buf = cur\<rparr> (Some c) =
          Inr \<lparr>state = IN_FIELD, fields_list = fs, field_buf = cur @ [c]\<rparr>"
      using False p(1) Cons.prems(2,3)
      by (auto simp: parse_process_char_def start_field_def parse_add_char_def add_char_then_def
            plain_def)
    moreover have "feed_line \<lparr>state = IN_FIELD, fields_list = fs, field_buf = cur @ [c]\<rparr>
          (l @ [NL]) =
        Inr \<lparr>state = START_RECORD, fields_list = fs @ cut (cur @ [c]) l, field_buf = []\<rparr>"
      using p(2) Cons.prems(2) by (intro Cons.IH) simp_all
    ultimately show ?thesis using False by simp
  qed
qed

lemma feed_plain_line:
  assumes "list_all plain l" and "length l \<le> field_limit"
  shows "feed_line parse_reset (l @ [NL]) =
         Inr \<lparr>state = START_RECORD, fields_list = (if l = [] then [] else comma_split l),
              field_buf = []\<rparr>"
proof (cases l)
  case Nil
  then show ?thesis
    by (simp add: parse_reset_def parse_process_char_def)
next
  case (Cons c cs)
  from assms Cons have p: "plain c" "list_all plain cs" by simp_all
  have "parse_process_char parse_reset (Some c) =
        parse_process_char \<lparr>state = START_FIELD, fields_list = [], field_buf = []\<rparr> (Some c)"
    using p(1) by (simp add: parse_reset_def parse_process_char_def plain_def)
  then have "feed_line parse_reset (l @ [NL]) =
        feed_line \<lparr>state = START_FIELD, fields_list = [], field_buf = []\<rparr> (l @ [NL])"
    using Cons by simp
  also have "\<dots> = Inr \<lparr>state = START_RECORD, fields_list = [] @ cut [] l, field_buf = []\<rparr>"
    using assms by (intro feed_plain) simp_all
  finally show ?thesis using Cons by (simp add: comma_split_def)
qed

lemma read_plain_rows:
  assumes "list_all (\<lambda>l. list_all plain l \<and> length l \<le> field_limit) ls"
  shows "read_rows parse_reset (map (\<lambda>l. l @ [NL]) ls) =
         Inr (map (\<lambda>l. if l = [] then [] else comma_split l) ls)"
  using assms
proof (induction ls)
  case Nil
  show ?case by (simp add: parse_reset_def)
next
  case (Cons l ls)
  then have "feed_line parse_reset (l @ [NL]) =
         Inr \<lparr>state = START_RECORD, fields_list = (if l = [] then [] else comma_split l),
              field_buf = []\<rparr>"
    by (intro feed_plain_line) simp_all
  with Cons show ?case by simp
qed

section \<open>The calls of one transmission\<close>

lemma calls_of_append: "calls_of (xs @ ys) = calls_of xs @ calls_of ys"
  by (induction xs rule: calls_of.induct) simp_all

lemma calls_of_map_Call: "calls_of (map Call cs) = cs"
  by (induction cs) simp_all

lemma connects_append: "connects (xs @ ys) = connects xs + connects ys"
  by (simp add: connects_def calls_of_append)


lemma calls_of_tls_prompt: "calls_of (fst (tls_prompt W A)) = []"
  by (simp add: tls_prompt_def Let_def)

lemma do_calls_raises:
  "srv w c = (Some e, w') \<Longrightarrow> do_calls srv w (c # cs) = ([c], Some e, w')"
  by simp

lemma do_calls_returns:
  "srv w c = (None, w') \<Longrightarrow>
   do_calls srv w (c # cs) =
     (c # fst (do_calls srv w' cs), fst (snd (do_calls srv w' cs)),
      snd (snd (do_calls srv w' cs)))"
  by (simp add: split_def)

declare do_calls.simps(2) [simp del]

lemma do_calls_within: "set (fst (do_calls srv w cs)) \<subseteq> set cs"
proof (induction cs arbitrary: w)
  case Nil
  show ?case by simp
next
  case (Cons c cs)
  obtain r w' where s: "srv w c = (r, w')" by (cases "srv w c")
  show ?case
  proof (cases r)
    case None
    with s Cons [of w'] show ?thesis by (auto simp: do_calls_returns)
  next
    case (Some e)
    with s show ?thesis by (simp add: do_calls_raises)
  qed
qed

lemma do_calls_first:
  "\<exists>cs'. fst (do_calls srv w (c # cs)) = c # cs' \<and> set cs' \<subseteq> set cs"
proof -
  obtain r w' where s: "srv w c = (r, w')" by (cases "srv w c")
  show ?thesis
  proof (cases r)
    case None
    with s do_calls_within [of srv w' cs] show ?thesis by (simp add: do_calls_returns)
  next
    case (Some e)
    with s show ?thesis by (simp add: do_calls_raises)
  qed
qed

lemma do_calls_all:
  assumes "\<And>w c. c \<in> set cs \<Longrightarrow> fst (srv w c) = None"
  shows "fst (do_calls srv w (cs @ [c'])) = cs @ [c']"
  using assms
proof (induction cs arbitrary: w)
  case Nil
  show ?case by (cases "srv w c'") (auto simp: do_calls.simps split: option.splits)
next
  case (Cons c cs)
  have "fst (srv w c) = None" using Cons.prems by simp
  then obtain w' where s: "srv w c = (None, w')" by (cases "srv w c") auto
  have i: "fst (do_calls srv w' (cs @ [c'])) = cs @ [c']"
  proof (rule Cons.IH)
    fix v d assume "d \<in> set cs"
    then show "fst (srv v d) = None" using Cons.prems by simp
  qed
  show ?case using s i by (simp add: do_calls_returns)
qed

lemma calls_of_send_live:
  "calls_of (fst (send_live W A w f r m)) = fst (do_calls (smtp W) w (smtp_calls A f r m))"
  by (cases "do_calls (smtp W) w (smtp_calls A f r m)")
     (simp add: send_live_def calls_of_append calls_of_map_Call split: option.splits)

lemma connects_send_live: "connects (fst (send_live W A w f r m)) = 1"
proof -
  let ?rest = "(if tls A then [Starttls, Login (username A) (password A)] else []) @
              [Sendmail f r m]"
  have e: "smtp_calls A f r m = Connect (hostname A) (port A) # ?rest"
    by (simp add: smtp_calls_def)
  obtain cs' where c: "fst (do_calls (smtp W) w (smtp_calls A f r m)) =
      Connect (hostname A) (port A) # cs'"
    and s: "set cs' \<subseteq> set ?rest"
    unfolding e using do_calls_first [of "smtp W" w "Connect (hostname A) (port A)" ?rest]
    by blast
  from s have "filter is_connect cs' = []"
    by (auto simp: filter_empty_conv split: if_splits)
  with c show ?thesis
    by (simp add: connects_def calls_of_send_live)
qed


lemma calls_of_send_live_all:
  assumes "\<And>w c. fst (smtp W w c) = None"
  shows "calls_of (fst (send_live W A w f r m)) = smtp_calls A f r m"
proof -
  let ?pre = "Connect (hostname A) (port A) #
            (if tls A then [Starttls, Login (username A) (password A)] else [])"
  have e: "smtp_calls A f r m = ?pre @ [Sendmail f r m]"
    by (simp add: smtp_calls_def)
  have "fst (do_calls (smtp W) w (?pre @ [Sendmail f r m])) = ?pre @ [Sendmail f r m]"
    by (rule do_calls_all) (rule assms)
  then show ?thesis by (simp add: calls_of_send_live e)
qed

section \<open>One pass of the loop\<close>

lemma loop_body_cases [case_names skip abort dry live]:
  fixes L :: "'t lib" and A :: "'f args" and loc :: "'t locals"
  obtains
    (skip) "length line \<noteq> 2"
      "\<And>(W :: ('w, 'f) world) w. loop_body L W A loc i k w line =
          ((if line = [] then [] else [Print (diagnostic line)]), Inr (k, w))"
  | (abort) ev e where "length line = 2" "calls_of ev = []"
      "\<And>(W :: ('w, 'f) world) w. loop_body L W A loc i k w line = (ev, Inl e)"
  | (dry) name email rcpt m k' where "test A" "line = [name, email]"
      "formataddr (header_encode L) (name, email) = Inr rcpt"
      "\<And>(W :: ('w, 'f) world) w. loop_body L W A loc i k w line =
          ([Print (progress i (total loc) rcpt), Print (''Testing'' @ [NL]), Print (m @ [NL])],
           Inr (k', w))"
  | (live) name email rcpt m k' where "\<not> test A" "line = [name, email]"
      "formataddr (header_encode L) (name, email) = Inr rcpt"
      "\<And>(W :: ('w, 'f) world) w. loop_body L W A loc i k w line =
          (Print (progress i (total loc) rcpt) # fst (send_live W A w (sender_email loc) rcpt m),
           Inr (k', snd (send_live W A w (sender_email loc) rcpt m)))"
proof (cases "length line = 2")
  case False
  then have "\<And>(W :: ('w, 'f) world) w. loop_body L W A loc i k w line =
          ((if line = [] then [] else [Print (diagnostic line)]), Inr (k, w))"
    by (auto simp: loop_body_def split: list.splits)
  with False show ?thesis by (rule skip)
next
  case True
  then obtain name email where l: "line = [name, email]"
    by (cases line; cases "tl line") auto
  show ?thesis
  proof (cases "formataddr (header_encode L) (name, email)")
    case (Inl e)
    with l have "\<And>(W :: ('w, 'f) world) w. loop_body L W A loc i k w line = ([], Inl e)"
      by (simp add: loop_body_def)
    with True show ?thesis by (intro abort [of "[]" e]) simp_all
  next
    case (Inr rcpt)
    let ?k = "k(''name'' \<mapsto> name, ''email'' \<mapsto> email, ''recipient'' \<mapsto> rcpt)"
    let ?p = "Print (progress i (total loc) rcpt) :: 'f event"
    show ?thesis
    proof (cases "render L (raw_subject loc) ?k")
      case (Inl e)
      with l Inr have "\<And>(W :: ('w, 'f) world) w. loop_body L W A loc i k w line = ([?p], Inl e)"
        by (simp add: loop_body_def)
      with True show ?thesis by (intro abort [of "[?p]" e]) simp_all
    next
      case subj: (Inr subject)
      show ?thesis
      proof (cases "render L (raw_body loc) ?k")
        case (Inl e)
        with l Inr subj
        have "\<And>(W :: ('w, 'f) world) w. loop_body L W A loc i k w line = ([?p], Inl e)"
          by (simp add: loop_body_def)
        with True show ?thesis by (intro abort [of "[?p]" e]) simp_all
      next
        case body: (Inr body)
        show ?thesis
        proof (cases "as_string L (build_message (sender A) rcpt subject body)")
          case (Inl e)
          with l Inr subj body
          have "\<And>(W :: ('w, 'f) world) w. loop_body L W A loc i k w line = ([?p], Inl e)"
            by (simp add: loop_body_def)
          with True show ?thesis by (intro abort [of "[?p]" e]) simp_all
        next
          case msg: (Inr m)
          show ?thesis
          proof (cases "test A")
            case True
            with l Inr subj body msg
            have "\<And>(W :: ('w, 'f) world) w. loop_body L W A loc i k w line =
               ([?p, Print (''Testing'' @ [NL]), Print (m @ [NL])], Inr (?k, w))"
              by (simp add: loop_body_def)
            with True l Inr show ?thesis by (intro dry [of name email rcpt m ?k]) simp_all
          next
            case False
            with l Inr subj body msg
            have "\<And>(W :: ('w, 'f) world) w. loop_body L W A loc i k w line =
                (?p # fst (send_live W A w (sender_email loc) rcpt m),
                 Inr (?k, snd (send_live W A w (sender_email loc) rcpt m)))"
              by (simp add: loop_body_def split_def)
            with False l Inr show ?thesis by (intro live [of name email rcpt m ?k]) simp_all
          qed
        qed
      qed
    qed
  qed
qed

lemma for_loop_abort:
  "loop_body L W A loc i k w line = (ev, Inl e) \<Longrightarrow>
   for_loop L W A loc i k w (line # rest) = (ev, Some e)"
  by simp

lemma for_loop_continue:
  "loop_body L W A loc i k w line = (ev, Inr (k', w')) \<Longrightarrow>
   for_loop L W A loc i k w (line # rest) =
     (ev @ fst (for_loop L W A loc (Suc i) k' w' rest),
      snd (for_loop L W A loc (Suc i) k' w' rest))"
  by (simp add: split_def)

declare for_loop.simps(2) [simp del]

lemma for_loop_outcome:
  fixes W W' :: "('w, 'f) world"
  shows "snd (for_loop L W A loc i k w rows) = snd (for_loop L W' A loc i k w' rows)"
proof (induction rows arbitrary: i k w w')
  case Nil
  show ?case by simp
next
  case (Cons line rows)
  show ?case
  proof (cases rule: loop_body_cases
      [where line = line and L = L and A = A and loc = loc and i = i and k = k and ?'w = 'w])
    case skip
    then show ?thesis using Cons by (simp add: for_loop_continue)
  next
    case (abort ev e)
    then show ?thesis by (simp add: for_loop_abort)
  next
    case (dry name email rcpt m k')
    then show ?thesis using Cons by (simp add: for_loop_continue)
  next
    case (live name email rcpt m k')
    then show ?thesis using Cons by (simp add: for_loop_continue)
  qed
qed

section \<open>The loop\<close>

lemma tls_prompt_same_user:
  "input W' = input W \<Longrightarrow> getpass W' = getpass W \<Longrightarrow> tls_prompt W' A = tls_prompt W A"
  by (simp add: tls_prompt_def)

lemma prepare_rows:
  "prepare L A = Inr (kw, loc, rows) \<Longrightarrow> reader (names A) = Inr rows \<and> total loc = length rows"
  by (auto simp: prepare_def split: prod.splits sum.splits list.splits)

lemma connects_simps [simp]:
  "connects [] = 0" "connects (Print s # es) = connects es"
  "connects (Call c # es) = (if is_connect c then 1 else 0) + connects es"
  by (simp_all add: connects_def)

lemma sends_simps [simp]:
  "sends [] = []" "sends (Print s # es) = sends es"
  by (simp_all add: sends_def)

lemma for_loop_connects:
  fixes W :: "('w, 'f) world"
  assumes "\<not> test A" and "snd (for_loop L W A loc i k w rows) = None"
  shows "connects (fst (for_loop L W A loc i k w rows)) = length (filter (\<lambda>r. length r = 2) rows)"
  using assms(2)
proof (induction rows arbitrary: i k w)
  case Nil
  show ?case by simp
next
  case (Cons line rows)
  show ?case
  proof (cases rule: loop_body_cases
      [where line = line and L = L and A = A and loc = loc and i = i and k = k and ?'w = 'w])
    case skip
    then show ?thesis using Cons by (simp add: for_loop_continue connects_append)
  next
    case (abort ev e)
    then show ?thesis using Cons.prems by (simp add: for_loop_abort)
  next
    case (dry name email rcpt m k')
    then show ?thesis using assms(1) by simp
  next
    case (live name email rcpt m k')
    then show ?thesis using Cons connects_send_live [of W A w "sender_email loc" rcpt m]
      by (simp add: for_loop_continue connects_append)
  qed
qed

lemma for_loop_connects_same:
  fixes W W' :: "('w, 'f) world"
  shows "connects (fst (for_loop L W A loc i k w rows)) =
         connects (fst (for_loop L W' A loc i k w' rows))"
proof (induction rows arbitrary: i k w w')
  case Nil
  show ?case by simp
next
  case (Cons line rows)
  show ?case
  proof (cases rule: loop_body_cases
      [where line = line and L = L and A = A and loc = loc and i = i and k = k and ?'w = 'w])
    case skip
    then show ?thesis using Cons by (simp add: for_loop_continue connects_append)
  next
    case (abort ev e)
    then show ?thesis by (simp add: for_loop_abort)
  next
    case (dry name email rcpt m k')
    then show ?thesis using Cons by (simp add: for_loop_continue connects_append)
  next
    case (live name email rcpt m k')
    then show ?thesis
      using Cons connects_send_live [of W A w "sender_email loc" rcpt m]
        connects_send_live [of W' A w' "sender_email loc" rcpt m]
      by (simp add: for_loop_continue connects_append)
  qed
qed


lemma for_loop_dry_calls:
  fixes W :: "('w, 'f) world"
  assumes "test A"
  shows "calls_of (fst (for_loop L W A loc i k w rows)) = []"
proof (induction rows arbitrary: i k w)
  case Nil
  show ?case by simp
next
  case (Cons line rows)
  show ?case
  proof (cases rule: loop_body_cases
      [where line = line and L = L and A = A and loc = loc and i = i and k = k and ?'w = 'w])
    case skip
    then show ?thesis using Cons by (simp add: for_loop_continue calls_of_append)
  next
    case (abort ev e)
    then show ?thesis by (simp add: for_loop_abort)
  next
    case (dry name email rcpt m k')
    then show ?thesis using Cons by (simp add: for_loop_continue calls_of_append)
  next
    case (live name email rcpt m k')
    then show ?thesis using assms by simp
  qed
qed

lemma dry_run_other:
  "length line \<noteq> 2 \<Longrightarrow>
   dry_run enc i n (line # rows) ms =
     (if line = [] then [] else [Print (diagnostic line)]) @ dry_run enc (Suc i) n rows ms"
  by (cases "(enc, i, n, line # rows, ms)" rule: dry_run.cases) auto

lemma for_loop_dry:
  fixes W :: "('w, 'f) world"
  assumes "test A" and "snd (for_loop L W A loc i k w rows) = None"
  shows "\<exists>ms. length ms = length (filter (\<lambda>r. length r = 2) rows) \<and>
     fst (for_loop L W A loc i k w rows) = dry_run (header_encode L) i (total loc) rows ms"
  using assms(2)
proof (induction rows arbitrary: i k w)
  case Nil
  show ?case by simp
next
  case (Cons line rows)
  show ?case
  proof (cases rule: loop_body_cases
      [where line = line and L = L and A = A and loc = loc and i = i and k = k and ?'w = 'w])
    case skip
    from skip(2) [of W w] Cons.prems
    have "snd (for_loop L W A loc (Suc i) k w rows) = None"
      by (simp add: for_loop_continue)
    from Cons.IH [OF this] obtain ms where
      "length ms = length (filter (\<lambda>r. length r = 2) rows)"
      "fst (for_loop L W A loc (Suc i) k w rows) = dry_run (header_encode L) (Suc i) (total loc) rows ms"
      by blast
    with skip show ?thesis
      by (intro exI [of _ ms]) (simp add: for_loop_continue dry_run_other)
  next
    case (abort ev e)
    then show ?thesis using Cons.prems by (simp add: for_loop_abort)
  next
    case (dry name email rcpt m k')
    from dry(4) [of W w] Cons.prems
    have "snd (for_loop L W A loc (Suc i) k' w rows) = None"
      by (simp add: for_loop_continue)
    from Cons.IH [OF this] obtain ms where
      "length ms = length (filter (\<lambda>r. length r = 2) rows)"
      "fst (for_loop L W A loc (Suc i) k' w rows) = dry_run (header_encode L) (Suc i) (total loc) rows ms"
      by blast
    with dry show ?thesis
      by (intro exI [of _ "m # ms"]) (simp add: for_loop_continue)
  next
    case (live name email rcpt m k')
    then show ?thesis using assms(1) by simp
  qed
qed

lemma for_loop_tls_calls:
  fixes W :: "('w, 'f) world"
  assumes "\<not> test A" and "tls A" and "\<And>w c. fst (smtp W w c) = None"
    and "c = Starttls \<or> c = Login (username A) (password A)"
    and "snd (for_loop L W A loc i k w rows) = None"
  shows "count_list (calls_of (fst (for_loop L W A loc i k w rows))) c =
         length (filter (\<lambda>r. length r = 2) rows)"
  using assms(5)
proof (induction rows arbitrary: i k w)
  case Nil
  show ?case by simp
next
  case (Cons line rows)
  show ?case
  proof (cases rule: loop_body_cases
      [where line = line and L = L and A = A and loc = loc and i = i and k = k and ?'w = 'w])
    case skip
    then show ?thesis using Cons by (simp add: for_loop_continue calls_of_append)
  next
    case (abort ev e)
    then show ?thesis using Cons.prems by (simp add: for_loop_abort)
  next
    case (dry name email rcpt m k')
    then show ?thesis using assms(1) by simp
  next
    case (live name email rcpt m k')
    have "count_list (smtp_calls A (sender_email loc) rcpt m) c = 1"
      using assms(2,4) by (auto simp: smtp_calls_def)
    then show ?thesis
      using live Cons calls_of_send_live_all [of W A w "sender_email loc" rcpt m, OF assms(3)]
      by (simp add: for_loop_continue calls_of_append)
  qed
qed

lemma smtp_calls_html_message:
  "smtp_calls (A\<lparr>html := h, message := m\<rparr>) f r msg = smtp_calls A f r msg"
  by (simp add: smtp_calls_def)

lemma send_live_html_message:
  "send_live W (A\<lparr>html := h, message := m\<rparr>) w f r msg = send_live W A w f r msg"
  by (simp add: send_live_def smtp_calls_html_message split: prod.splits option.splits)

lemma loop_body_html_message:
  "loop_body L W (A\<lparr>html := h, message := m\<rparr>) loc i k w line = loop_body L W A loc i k w line"
  by (simp add: loop_body_def send_live_html_message Let_def split: list.splits sum.splits)

lemma for_loop_html_message:
  "for_loop L W (A\<lparr>html := h, message := m\<rparr>) loc i k w rows = for_loop L W A loc i k w rows"
  by (induction rows arbitrary: i k w) (simp_all add: for_loop.simps loop_body_html_message)

lemma loop_body_markdown:
  "loop_body (L\<lparr>markdown := f\<rparr>) W A loc i k w line = loop_body L W A loc i k w line"
  by (simp add: loop_body_def Let_def split: list.splits sum.splits)

lemma for_loop_markdown:
  "for_loop (L\<lparr>markdown := f\<rparr>) W A loc i k w rows = for_loop L W A loc i k w rows"
  by (induction rows arbitrary: i k w) (simp_all add: for_loop.simps loop_body_markdown)

lemma prepare_markdown_first:
  assumes "NL \<notin> set s"
  shows "prepare L (A\<lparr>html := False, message := s @ NL # b\<rparr>) =
         prepare L (A\<lparr>html := True, message := s @ NL # markdown L b\<rparr>)"
  using assms by (simp add: prepare_def split_once_first split: prod.splits sum.splits)

lemma prepare_html_skips:
  assumes "html A"
  shows "prepare (L\<lparr>markdown := f\<rparr>) A = prepare L A"
  using assms by (simp add: prepare_def split: prod.splits sum.splits list.splits)

section \<open>Whole runs\<close>

lemma main_normal:
  assumes "main L W A = (tr, None)"
  obtains kw loc rows where
    "prepare L (snd (tls_prompt W A)) = Inr (kw, loc, rows)"
    "tr = fst (tls_prompt W A) @ fst (for_loop L W (snd (tls_prompt W A)) loc 0 kw (server W) rows)"
    "snd (for_loop L W (snd (tls_prompt W A)) loc 0 kw (server W) rows) = None"
    "reader (names A) = Inr rows" "total loc = length rows"
proof (cases "prepare L (snd (tls_prompt W A))")
  case (Inl e)
  with assms show ?thesis by (simp add: main_unfold)
next
  case (Inr x)
  obtain kw loc rows where x: "x = (kw, loc, rows)" by (cases x)
  from Inr x prepare_rows [of L "snd (tls_prompt W A)" kw loc rows]
  have "reader (names A) = Inr rows" "total loc = length rows"
    by (simp_all add: tls_prompt_keeps)
  with Inr x assms that [of kw loc rows] show ?thesis
    by (simp add: main_unfold)
qed

lemma main_outcome_same:
  fixes W W' :: "('w, 'f) world"
  assumes "input W' = input W" and "getpass W' = getpass W"
  shows "snd (main L W A) = snd (main L W' A)"
  using for_loop_outcome [of L W "snd (tls_prompt W A)" _ 0 _ "server W" _ W' "server W'"]
  by (simp add: main_unfold tls_prompt_same_user [OF assms] split: sum.splits prod.splits)

lemma main_connects_same:
  fixes W W' :: "('w, 'f) world"
  assumes "input W' = input W" and "getpass W' = getpass W"
  shows "connects (fst (main L W A)) = connects (fst (main L W' A))"
  using for_loop_connects_same [of L W "snd (tls_prompt W A)" _ 0 _ "server W" _ W' "server W'"]
  by (simp add: main_unfold tls_prompt_same_user [OF assms] connects_append
      split: sum.splits prod.splits)



lemma send_live_connect_fails:
  "smtp W w (Connect (hostname A) (port A)) = (Some e, w') \<Longrightarrow>
   send_live W A w f r m = ([Call (Connect (hostname A) (port A)), Print (e @ [NL])], w')"
  by (simp add: send_live_def smtp_calls_def do_calls_raises)

lemma send_live_login_fails:
  assumes "tls A" and "smtp W w (Connect (hostname A) (port A)) = (None, wa)"
    and "smtp W wa Starttls = (None, wb)"
    and "smtp W wb (Login (username A) (password A)) = (Some e, wc)"
  shows "send_live W A w f r m =
     ([Call (Connect (hostname A) (port A)), Call Starttls,
       Call (Login (username A) (password A)), Print (e @ [NL])], wc)"
  using assms by (simp add: send_live_def smtp_calls_def do_calls_raises do_calls_returns)

lemma sample_rows:
  "reader (names sample_args) = Inr [[''Al'', ''al@x.org''], [''Bo'', ''bo@x.org'']]"
  by (simp add: sample_args_def csv_defs)

lemma loop_body_blank: "loop_body L W A loc i k w [] = ([], Inr (k, w))"
  by (simp add: loop_body_def)

lemma loop_body_record:
  "loop_body L W A loc i k w [name, email] = (ev, Inr (k', w')) \<Longrightarrow>
   k' ''name'' = Some name \<and> k' ''email'' = Some email"
  by (auto simp: loop_body_def Let_def split: sum.splits if_splits prod.splits)

lemma loop_body_malformed:
  fixes W :: "('w, 'f) world"
  assumes "row \<noteq> []" and "length row \<noteq> 2"
  shows "loop_body L W A loc i k w row =
     ([Print (''Improperly formatted user: '' @ [DQUOTE] @ join '','' row @ [DQUOTE] @ ''.'' @ [NL])],
      Inr (k, w))"
proof (cases rule: loop_body_cases
      [where line = row and L = L and A = A and loc = loc and i = i and k = k and ?'w = 'w])
  case skip
  from skip(2) [of W w] assms(1) show ?thesis by (simp add: diagnostic_def)
next
  case (abort ev e)
  with assms(2) show ?thesis by simp
next
  case (dry name email rcpt m k')
  with assms(2) show ?thesis by simp
next
  case (live name email rcpt m k')
  with assms(2) show ?thesis by simp
qed

lemma for_loop_skips:
  fixes W :: "('w, 'f) world"
  assumes "length row \<noteq> 2"
  shows "for_loop L W A loc i k w (row # rest) =
     (fst (loop_body L W A loc i k w row) @ fst (for_loop L W A loc (Suc i) k w rest),
      snd (for_loop L W A loc (Suc i) k w rest))"
proof (cases rule: loop_body_cases
      [where line = row and L = L and A = A and loc = loc and i = i and k = k and ?'w = 'w])
  case skip
  from for_loop_continue [OF skip(2) [of W w]] show ?thesis by (simp add: skip(2))
next
  case (abort ev e)
  with assms show ?thesis by simp
next
  case (dry name email rcpt m k')
  with assms show ?thesis by simp
next
  case (live name email rcpt m k')
  with assms show ?thesis by simp
qed

section \<open>The claims\<close>

text \<open>
  C1 (corrected statement). The driver does not open one session for the run: it opens
  one inside the loop for every recipient. In a live run that ends normally, the number
  of connections opened equals the number of rows with two fields, and none is opened
  outside the loop. With \<open>--tls\<close> and a server that accepts every call, the TLS upgrade
  and the login are made as often, once on each connection.
\<close>

theorem one_connection_per_recipient:
  fixes W :: "('w, 'f) world"
  shows
  "\<not> test A \<and> main L W A = (tr, None) \<and> reader (names A) = Inr rows \<longrightarrow>
     connects tr = length (filter (\<lambda>r. length r = 2) rows)
   \<and> (tls A \<and> (\<forall>w c. fst (smtp W w c) = None) \<longrightarrow>
        count_list (calls_of tr) Starttls = length (filter (\<lambda>r. length r = 2) rows)
      \<and> count_list (calls_of tr)
          (Login (username (snd (tls_prompt W A))) (password (snd (tls_prompt W A)))) =
         length (filter (\<lambda>r. length r = 2) rows))"
proof (intro impI conjI)
  assume a: "\<not> test A \<and> main L W A = (tr, None) \<and> reader (names A) = Inr rows"
  let ?A = "snd (tls_prompt W A)"
  from a obtain kw loc rows' where
    t: "tr = fst (tls_prompt W A) @ fst (for_loop L W ?A loc 0 kw (server W) rows')"
    and n: "snd (for_loop L W ?A loc 0 kw (server W) rows') = None"
    and r: "reader (names A) = Inr rows'"
    using main_normal [of L W A tr] by blast
  from r a have e: "rows' = rows" by simp
  have nt: "\<not> test ?A" using a by (simp add: tls_prompt_keeps)
  from for_loop_connects [OF nt n] t e
  show "connects tr = length (filter (\<lambda>r. length r = 2) rows)"
    by (simp add: connects_def calls_of_append calls_of_tls_prompt)
  assume b: "tls A \<and> (\<forall>w c. fst (smtp W w c) = None)"
  then have tl: "tls ?A" and ok: "\<And>w c. fst (smtp W w c) = None"
    by (simp_all add: tls_prompt_keeps)
  from for_loop_tls_calls [OF nt tl ok _ n, of Starttls] t e
  show "count_list (calls_of tr) Starttls = length (filter (\<lambda>r. length r = 2) rows)"
    by (simp add: calls_of_append calls_of_tls_prompt)
  from for_loop_tls_calls [OF nt tl ok _ n, of "Login (username ?A) (password ?A)"] t e
  show "count_list (calls_of tr) (Login (username ?A) (password ?A)) =
         length (filter (\<lambda>r. length r = 2) rows)"
    by (simp add: calls_of_append calls_of_tls_prompt)
qed

theorem one_connection_per_recipient_witness:
  "\<not> test (sample_args\<lparr>tls := True\<rparr>)
   \<and> snd (main sample_lib ok_world (sample_args\<lparr>tls := True\<rparr>)) = None
   \<and> reader (names (sample_args\<lparr>tls := True\<rparr>)) =
       Inr [[''Al'', ''al@x.org''], [''Bo'', ''bo@x.org'']]
   \<and> tls (sample_args\<lparr>tls := True\<rparr>)
   \<and> connects (fst (main sample_lib ok_world (sample_args\<lparr>tls := True\<rparr>))) = 2
   \<and> count_list (calls_of (fst (main sample_lib ok_world (sample_args\<lparr>tls := True\<rparr>))))
        Starttls = 2
   \<and> count_list (calls_of (fst (main sample_lib ok_world (sample_args\<lparr>tls := True\<rparr>))))
        (Login (Some ''user'') (Some ''secret'')) = 2"
proof -
  let ?A = "sample_args\<lparr>tls := True\<rparr>"
  have t: "\<not> test ?A" "tls ?A" by (simp_all add: sample_args_def)
  have n: "snd (main sample_lib ok_world ?A) = None"
    by (simp add: run_defs sample_defs cong: prod.case_cong_weak)
  then have m: "main sample_lib ok_world ?A = (fst (main sample_lib ok_world ?A), None)"
    by (simp add: prod_eq_iff)
  have r: "reader (names ?A) = Inr [[''Al'', ''al@x.org''], [''Bo'', ''bo@x.org'']]"
    by (simp add: sample_args_def csv_defs)
  have o: "\<forall>w c. fst (smtp ok_world w c) = None" by (simp add: ok_world_def)
  have u: "username (snd (tls_prompt ok_world ?A)) = Some ''user''"
    "password (snd (tls_prompt ok_world ?A)) = Some ''secret''"
    by (simp_all add: tls_prompt_def falsy_def sample_args_def ok_world_def)
  from one_connection_per_recipient
         [where A = ?A and L = sample_lib and W = ok_world
            and tr = "fst (main sample_lib ok_world ?A)"
            and rows = "[[''Al'', ''al@x.org''], [''Bo'', ''bo@x.org'']]"] t m r o
  have "connects (fst (main sample_lib ok_world ?A)) = 2
    \<and> count_list (calls_of (fst (main sample_lib ok_world ?A))) Starttls = 2
    \<and> count_list (calls_of (fst (main sample_lib ok_world ?A)))
        (Login (Some ''user'') (Some ''secret'')) = 2"
    by (simp add: u)
  with t n r show ?thesis by blast
qed

text \<open>
  Two recipients, a server that accepts everything: two connections, each after its
  recipient's progress line.
\<close>
theorem one_session_per_run_counterexample:
  "connects (fst (main sample_lib ok_world sample_args)) \<noteq> 1
   \<and> map is_connect (calls_of (fst (main sample_lib ok_world sample_args))) =
       [True, False, True, False]
   \<and> hd (fst (main sample_lib ok_world sample_args)) = Print ''1 / 2: Al <al@x.org>... ''"
  by (simp add: run_defs sample_defs connects_def cong: prod.case_cong_weak)

text \<open>
  C2 (corrected statement). A connection or authentication failure is not fatal. The
  connection is opened inside the \<open>try\<close> block of each recipient, so the failure is caught
  there and its text printed; whether the run ends normally, and how many connections it
  attempts, is the same whatever the server answers.
\<close>

theorem connection_failure_is_caught:
  fixes W W' :: "('w, 'f) world"
  shows
  "(smtp W w (Connect (hostname A) (port A)) = (Some e, w') \<longrightarrow>
      send_live W A w f r m = ([Call (Connect (hostname A) (port A)), Print (e @ [NL])], w'))
 \<and> (tls A \<and> smtp W w (Connect (hostname A) (port A)) = (None, wa)
      \<and> smtp W wa Starttls = (None, wb)
      \<and> smtp W wb (Login (username A) (password A)) = (Some e, wc) \<longrightarrow>
      send_live W A w f r m =
        ([Call (Connect (hostname A) (port A)), Call Starttls,
          Call (Login (username A) (password A)), Print (e @ [NL])], wc))
 \<and> (input W' = input W \<and> getpass W' = getpass W \<longrightarrow>
      snd (main L W A) = snd (main L W' A)
    \<and> connects (fst (main L W A)) = connects (fst (main L W' A)))"
  using send_live_connect_fails [of W w A e w' f r m]
    send_live_login_fails [of A W w wa wb e wc f r m]
    main_outcome_same [of W' W L A] main_connects_same [of W' W L A]
  by blast

theorem connection_failure_is_caught_witness:
  "smtp refusing_world () (Connect (hostname sample_args) (port sample_args)) =
      (Some ''Connection refused'', ())
   \<and> send_live refusing_world sample_args () ''me@x.org'' ''Al <al@x.org>'' ''text'' =
      ([Call (Connect ''localhost'' 25), Print (''Connection refused'' @ [NL])], ())
   \<and> tls (sample_args\<lparr>tls := True\<rparr>)
   \<and> smtp bad_login_world () (Login None None) = (Some ''Authentication failed'', ())
   \<and> send_live bad_login_world (sample_args\<lparr>tls := True\<rparr>) () ''me@x.org'' ''Al <al@x.org>'' ''text'' =
      ([Call (Connect ''localhost'' 25), Call Starttls, Call (Login None None),
        Print (''Authentication failed'' @ [NL])], ())
   \<and> input ok_world = input refusing_world \<and> getpass ok_world = getpass refusing_world
   \<and> snd (main sample_lib refusing_world sample_args) = snd (main sample_lib ok_world sample_args)
   \<and> connects (fst (main sample_lib refusing_world sample_args)) =
       connects (fst (main sample_lib ok_world sample_args))"
proof -
  have a: "smtp refusing_world () (Connect (hostname sample_args) (port sample_args)) =
      (Some ''Connection refused'', ())"
    by (simp add: sample_defs)
  have b: "tls (sample_args\<lparr>tls := True\<rparr>)
      \<and> smtp bad_login_world ()
          (Connect (hostname (sample_args\<lparr>tls := True\<rparr>)) (port (sample_args\<lparr>tls := True\<rparr>))) = (None, ())
      \<and> smtp bad_login_world () Starttls = (None, ())
      \<and> smtp bad_login_world ()
          (Login (username (sample_args\<lparr>tls := True\<rparr>)) (password (sample_args\<lparr>tls := True\<rparr>))) =
          (Some ''Authentication failed'', ())"
    by (simp add: sample_defs)
  have c: "input ok_world = input refusing_world \<and> getpass ok_world = getpass refusing_world"
    by (simp add: sample_defs)
  have h: "hostname sample_args = ''localhost''" "port sample_args = 25"
    "hostname (sample_args\<lparr>tls := True\<rparr>) = ''localhost''" "port (sample_args\<lparr>tls := True\<rparr>) = 25"
    "username (sample_args\<lparr>tls := True\<rparr>) = None" "password (sample_args\<lparr>tls := True\<rparr>) = None"
    by (simp_all add: sample_args_def)
  from connection_failure_is_caught
         [where W = refusing_world and W' = ok_world and A = sample_args and w = "()"
            and e = "''Connection refused''" and w' = "()" and f = "''me@x.org''"
            and r = "''Al <al@x.org>''" and m = "''text''" and L = sample_lib] a c
  have one: "send_live refusing_world sample_args () ''me@x.org'' ''Al <al@x.org>'' ''text'' =
      ([Call (Connect ''localhost'' 25), Print (''Connection refused'' @ [NL])], ())
    \<and> snd (main sample_lib refusing_world sample_args) = snd (main sample_lib ok_world sample_args)
    \<and> connects (fst (main sample_lib refusing_world sample_args)) =
       connects (fst (main sample_lib ok_world sample_args))"
    by (simp add: h)
  from connection_failure_is_caught
         [where W = bad_login_world and A = "sample_args\<lparr>tls := True\<rparr>" and w = "()"
            and e = "''Authentication failed''" and wa = "()" and wb = "()" and wc = "()"
            and f = "''me@x.org''" and r = "''Al <al@x.org>''" and m = "''text''"
            and W' = ok_world and L = sample_lib] b
  have two: "send_live bad_login_world (sample_args\<lparr>tls := True\<rparr>) () ''me@x.org'' ''Al <al@x.org>'' ''text'' =
      ([Call (Connect ''localhost'' 25), Call Starttls, Call (Login None None),
        Print (''Authentication failed'' @ [NL])], ())"
    by (simp add: h)
  from a b c one two show ?thesis by (simp add: h)
qed

text \<open>
  A server that refuses every connection: both recipients are processed and the run ends
  normally.
\<close>
theorem connection_failure_is_fatal_counterexample:
  "main sample_lib refusing_world sample_args =
     ([Print ''1 / 2: Al <al@x.org>... '', Call (Connect ''localhost'' 25),
       Print (''Connection refused'' @ [NL]),
       Print ''2 / 2: Bo <bo@x.org>... '', Call (Connect ''localhost'' 25),
       Print (''Connection refused'' @ [NL])], None)"
  by (simp add: run_defs sample_defs cong: prod.case_cong_weak)



text \<open>
  C4. The \<open>From\<close> header is the \<open>--sender\<close> string as given; the parsed and re-formatted
  sender only goes into the template variable \<open>sender\<close>. With \<open>--sender '<bob@example.com>'\<close>
  the header reads \<open><bob@example.com>\<close>, while re-formatting gives \<open>bob@example.com\<close>.
\<close>

theorem from_header_is_raw_sender:
  "main sample_lib ok_world
     (sample_args\<lparr>test := True, sender := ''<bob@example.com>'', names := [''Al,al@x.org'' @ [NL]]\<rparr>) =
     ([Print ''1 / 1: Al <al@x.org>... '', Print (''Testing'' @ [NL]),
       Print (''From: <bob@example.com>'' @ [NL] @
              ''To: Al <al@x.org>'' @ [NL] @
              ''Subject: Hi'' @ [NL] @
              ''MIME-Version: 1.0'' @ [NL] @
              ''Content-Type: text/html; charset='' @ [DQUOTE] @ ''utf-8'' @ [DQUOTE] @ [NL] @
              [NL] @ html_doc ''Yo'' @ [NL])], None)
   \<and> parseaddr sample_lib ''<bob@example.com>'' = ([], ''bob@example.com'')
   \<and> formataddr (header_encode sample_lib) ([], ''bob@example.com'') = Inr ''bob@example.com''"
  by (simp add: run_defs sample_defs cong: prod.case_cong_weak)

text \<open>
  C5 (corrected statement). The names file is read by the CSV reader, which knows double
  quotes. On lines without a double quote (and of at most 131072 characters) it is plain
  comma splitting, an empty line giving a row without fields. A row without fields prints
  nothing; a row of two fields puts both, unchanged, into the context as \<open>name\<close> and
  \<open>email\<close>; any other row prints the diagnostic with its fields joined by commas, which
  for a line without quotes is the line itself; and after a row that is not a recipient
  the loop goes on with the next row.
\<close>

theorem names_file_rows:
  fixes W :: "('w, 'f) world"
  shows
  "(list_all (\<lambda>l. list_all plain l \<and> length l \<le> field_limit) ls \<longrightarrow>
      reader (map (\<lambda>l. l @ [NL]) ls) =
        Inr (map (\<lambda>l. if l = [] then [] else comma_split l) ls))
 \<and> join '','' (comma_split l) = l
 \<and> loop_body L W A loc i k w [] = ([], Inr (k, w))
 \<and> (loop_body L W A loc i k w [name, email] = (ev, Inr (k', w')) \<longrightarrow>
      k' ''name'' = Some name \<and> k' ''email'' = Some email)
 \<and> (row \<noteq> [] \<and> length row \<noteq> 2 \<longrightarrow>
      loop_body L W A loc i k w row =
        ([Print (''Improperly formatted user: '' @ [DQUOTE] @ join '','' row @ [DQUOTE] @
                 ''.'' @ [NL])],
         Inr (k, w)))
 \<and> (length row \<noteq> 2 \<longrightarrow>
      for_loop L W A loc i k w (row # rest) =
        (fst (loop_body L W A loc i k w row) @ fst (for_loop L W A loc (Suc i) k w rest),
         snd (for_loop L W A loc (Suc i) k w rest)))"
  using read_plain_rows [of ls] join_comma_split [of l] loop_body_blank [of L W A loc i k w]
    loop_body_record [of L W A loc i k w name email ev k' w']
    loop_body_malformed [of row L W A loc i k w] for_loop_skips [of row L W A loc i k w rest]
  by (simp add: reader_def)

theorem names_file_rows_witness:
  "list_all (\<lambda>l. list_all plain l \<and> length l \<le> field_limit) [''Al,al@x.org'', [], ''Carol,,'']
   \<and> reader [''Al,al@x.org'' @ [NL], [NL], ''Carol,,'' @ [NL]] =
       Inr [[''Al'', ''al@x.org''], [], [''Carol'', [], []]]
   \<and> join '','' (comma_split ''Carol,,'') = ''Carol,,''
   \<and> loop_body sample_lib ok_world (sample_args\<lparr>test := True\<rparr>)
        \<lparr>sender_email = ''me@x.org'', raw_subject = ''Hi'', raw_body = ''Yo'', total = 3\<rparr>
        0 Map.empty () [''Al'', ''al@x.org''] =
       ([Print ''1 / 3: Al <al@x.org>... '', Print (''Testing'' @ [NL]),
         Print (''From: me@x.org'' @ [NL] @ ''To: Al <al@x.org>'' @ [NL] @ ''Subject: Hi'' @ [NL] @
                ''MIME-Version: 1.0'' @ [NL] @
                ''Content-Type: text/html; charset='' @ [DQUOTE] @ ''utf-8'' @ [DQUOTE] @ [NL] @
                [NL] @ html_doc ''Yo'' @ [NL])],
        Inr ([''name'' \<mapsto> ''Al'', ''email'' \<mapsto> ''al@x.org'', ''recipient'' \<mapsto> ''Al <al@x.org>''], ()))
   \<and> [''name'' \<mapsto> ''Al'', ''email'' \<mapsto> ''al@x.org'', ''recipient'' \<mapsto> ''Al <al@x.org>''] ''name'' = Some ''Al''
   \<and> [''Carol'', [], []] \<noteq> [] \<and> length [''Carol'', [], []] \<noteq> 2
   \<and> loop_body sample_lib ok_world (sample_args\<lparr>test := True\<rparr>)
        \<lparr>sender_email = ''me@x.org'', raw_subject = ''Hi'', raw_body = ''Yo'', total = 3\<rparr>
        2 Map.empty () [''Carol'', [], []] =
       ([Print (''Improperly formatted user: '' @ [DQUOTE] @ ''Carol,,'' @ [DQUOTE] @ ''.'' @ [NL])],
        Inr (Map.empty, ()))
   \<and> for_loop sample_lib ok_world (sample_args\<lparr>test := True\<rparr>)
        \<lparr>sender_email = ''me@x.org'', raw_subject = ''Hi'', raw_body = ''Yo'', total = 3\<rparr>
        2 Map.empty () [[''Carol'', [], []]] =
       ([Print (''Improperly formatted user: '' @ [DQUOTE] @ ''Carol,,'' @ [DQUOTE] @ ''.'' @ [NL])],
        None)"
proof -
  let ?A = "sample_args\<lparr>test := True\<rparr>"
  let ?loc = "\<lparr>sender_email = ''me@x.org'', raw_subject = ''Hi'', raw_body = ''Yo'', total = 3\<rparr>"
  let ?k = "[''name'' \<mapsto> ''Al'', ''email'' \<mapsto> ''al@x.org'', ''recipient'' \<mapsto> ''Al <al@x.org>'']"
  let ?ev = "[Print ''1 / 3: Al <al@x.org>... '', Print (''Testing'' @ [NL]),
         Print (''From: me@x.org'' @ [NL] @ ''To: Al <al@x.org>'' @ [NL] @ ''Subject: Hi'' @ [NL] @
                ''MIME-Version: 1.0'' @ [NL] @
                ''Content-Type: text/html; charset='' @ [DQUOTE] @ ''utf-8'' @ [DQUOTE] @ [NL] @
                [NL] @ html_doc ''Yo'' @ [NL])] :: rat event list"
  have a: "list_all (\<lambda>l. list_all plain l \<and> length l \<le> field_limit)
      [''Al,al@x.org'', [], ''Carol,,'']"
    by (simp add: plain_def field_limit_def)
  have b: "loop_body sample_lib ok_world ?A ?loc 0 Map.empty () [''Al'', ''al@x.org''] =
      (?ev, Inr (?k, ()))"
    by (simp add: run_defs sample_defs cong: prod.case_cong_weak)
  have c: "[''Carol'', [], []] \<noteq> [] \<and> length [''Carol'', [], []] \<noteq> 2" by simp
  have d: "comma_split ''Al,al@x.org'' = [''Al'', ''al@x.org'']"
    "comma_split ''Carol,,'' = [''Carol'', [], []]"
    by (simp_all add: comma_split_def)
  have e: "for_loop sample_lib ok_world ?A ?loc 3 Map.empty () [] = ([], None)"
    by simp
  from names_file_rows
         [where ls = "[''Al,al@x.org'', [], ''Carol,,'']" and l = "''Carol,,''" and L = sample_lib
            and W = ok_world and A = ?A and loc = ?loc and i = 0 and k = Map.empty and w = "()"
            and name = "''Al''" and email = "''al@x.org''" and ev = ?ev and k' = ?k and w' = "()"
            and row = "[]" and rest = "[]"] a b
  have one: "reader [''Al,al@x.org'' @ [NL], [NL], ''Carol,,'' @ [NL]] =
       Inr [[''Al'', ''al@x.org''], [], [''Carol'', [], []]]
     \<and> join '','' (comma_split ''Carol,,'') = ''Carol,,''
     \<and> ?k ''name'' = Some ''Al''"
    by (simp add: d)
  from names_file_rows
         [where ls = "[]" and l = "[]" and L = sample_lib
            and W = ok_world and A = ?A and loc = ?loc and i = 2 and k = Map.empty and w = "()"
            and row = "[''Carol'', [], []]" and rest = "[]"] c
  have two: "loop_body sample_lib ok_world ?A ?loc 2 Map.empty () [''Carol'', [], []] =
       ([Print (''Improperly formatted user: '' @ [DQUOTE] @ ''Carol,,'' @ [DQUOTE] @ ''.'' @ [NL])],
        Inr (Map.empty, ()))
     \<and> for_loop sample_lib ok_world ?A ?loc 2 Map.empty () [[''Carol'', [], []]] =
       ([Print (''Improperly formatted user: '' @ [DQUOTE] @ ''Carol,,'' @ [DQUOTE] @ ''.'' @ [NL])],
        None)"
    by (simp add: numeral_3_eq_3 numeral_2_eq_2)
  from a b c one two show ?thesis by simp
qed

text \<open>
  A quoted name with a comma: three fields by comma splitting, but the reader gives two
  and the row is processed as a recipient.
\<close>
theorem quoted_comma_counterexample:
  "reader [[DQUOTE] @ ''Smith, John'' @ [DQUOTE] @ '',js@x.org'' @ [NL]] =
     Inr [[''Smith, John'', ''js@x.org'']]
   \<and> comma_split ([DQUOTE] @ ''Smith, John'' @ [DQUOTE] @ '',js@x.org'') =
     [[DQUOTE] @ ''Smith'', '' John'' @ [DQUOTE], ''js@x.org'']
   \<and> fst (main sample_lib ok_world
        (sample_args\<lparr>test := True,
           names := [[DQUOTE] @ ''Smith, John'' @ [DQUOTE] @ '',js@x.org'' @ [NL]]\<rparr>)) ! 0 =
     Print (''1 / 1: '' @ [DQUOTE] @ ''Smith, John'' @ [DQUOTE] @ '' <js@x.org>... '')"
  by (simp add: run_defs sample_defs comma_split_def cong: prod.case_cong_weak)

text \<open>
  C6 (corrected statement). A dry run makes no SMTP call at all. When it ends normally
  its output is, row by row in file order, nothing for an empty row, the diagnostic for a
  malformed row, and the progress line, \<open>Testing\<close> and the serialised message for a row
  of two fields: one printout per row of two fields. The progress line shows the row's
  position among all rows and the number of all rows, so its \<open>total\<close> is the number of
  printouts only when every row has two fields.
\<close>

theorem dry_run_prints_each_valid_row:
  fixes W :: "('w, 'f) world"
  shows
  "test A \<longrightarrow>
     calls_of (fst (main L W A)) = []
   \<and> (\<forall>tr rows. main L W A = (tr, None) \<and> reader (names A) = Inr rows \<longrightarrow>
        (\<exists>ms. length ms = length (filter (\<lambda>r. length r = 2) rows) \<and>
              tr = fst (tls_prompt W A) @ dry_run (header_encode L) 0 (length rows) rows ms))"
proof (intro impI conjI allI)
  assume t: "test A"
  then have t': "test (snd (tls_prompt W A))" by (simp add: tls_prompt_keeps)
  show "calls_of (fst (main L W A)) = []"
    using for_loop_dry_calls [OF t', of L W]
    by (simp add: main_unfold calls_of_append calls_of_tls_prompt split: sum.splits prod.splits)
  fix tr rows
  assume m: "main L W A = (tr, None) \<and> reader (names A) = Inr rows"
  then obtain kw loc rows' where
    tr: "tr = fst (tls_prompt W A) @ fst (for_loop L W (snd (tls_prompt W A)) loc 0 kw (server W) rows')"
    and n: "snd (for_loop L W (snd (tls_prompt W A)) loc 0 kw (server W) rows') = None"
    and r: "reader (names A) = Inr rows'" and l: "total loc = length rows'"
    using main_normal [of L W A tr] by blast
  from r m have e: "rows' = rows" by simp
  from for_loop_dry [OF t' n] tr e l
  show "\<exists>ms. length ms = length (filter (\<lambda>r. length r = 2) rows) \<and>
              tr = fst (tls_prompt W A) @ dry_run (header_encode L) 0 (length rows) rows ms"
    by auto
qed

theorem dry_run_prints_each_valid_row_witness:
  "test (sample_args\<lparr>test := True, names := [''Al,al@x.org'' @ [NL], ''Carol'' @ [NL]]\<rparr>)
   \<and> calls_of (fst (main sample_lib ok_world
        (sample_args\<lparr>test := True, names := [''Al,al@x.org'' @ [NL], ''Carol'' @ [NL]]\<rparr>))) = []
   \<and> snd (main sample_lib ok_world
        (sample_args\<lparr>test := True, names := [''Al,al@x.org'' @ [NL], ''Carol'' @ [NL]]\<rparr>)) = None
   \<and> reader (names (sample_args\<lparr>test := True, names := [''Al,al@x.org'' @ [NL], ''Carol'' @ [NL]]\<rparr>)) =
       Inr [[''Al'', ''al@x.org''], [''Carol'']]
   \<and> (\<exists>ms. length ms = 1 \<and>
         fst (main sample_lib ok_world
           (sample_args\<lparr>test := True, names := [''Al,al@x.org'' @ [NL], ''Carol'' @ [NL]]\<rparr>)) =
         dry_run (header_encode sample_lib) 0 2 [[''Al'', ''al@x.org''], [''Carol'']] ms)"
proof -
  let ?A = "sample_args\<lparr>test := True, names := [''Al,al@x.org'' @ [NL], ''Carol'' @ [NL]]\<rparr>"
  have t: "test ?A" by (simp add: sample_args_def)
  have n: "snd (main sample_lib ok_world ?A) = None"
    by (simp add: run_defs sample_defs cong: prod.case_cong_weak)
  then have m: "main sample_lib ok_world ?A = (fst (main sample_lib ok_world ?A), None)"
    by (simp add: prod_eq_iff)
  have r: "reader (names ?A) = Inr [[''Al'', ''al@x.org''], [''Carol'']]"
    by (simp add: sample_args_def csv_defs)
  have p: "fst (tls_prompt ok_world ?A) = []"
    by (simp add: tls_prompt_def sample_args_def)
  from dry_run_prints_each_valid_row [where A = ?A and L = sample_lib and W = ok_world] t
  have c: "calls_of (fst (main sample_lib ok_world ?A)) = []"
    and d: "\<forall>tr rows. main sample_lib ok_world ?A = (tr, None) \<and> reader (names ?A) = Inr rows \<longrightarrow>
        (\<exists>ms. length ms = length (filter (\<lambda>r. length r = 2) rows) \<and>
              tr = fst (tls_prompt ok_world ?A) @
                   dry_run (header_encode sample_lib) 0 (length rows) rows ms)"
    by blast+
  from d m r obtain ms where
    l: "length ms = length (filter (\<lambda>r. length r = 2) [[''Al'', ''al@x.org''], [''Carol'']])"
    and f: "fst (main sample_lib ok_world ?A) = fst (tls_prompt ok_world ?A) @
             dry_run (header_encode sample_lib) 0
               (length [[''Al'', ''al@x.org''], [''Carol'']]) [[''Al'', ''al@x.org''], [''Carol'']] ms"
    by blast
  from l have "length ms = 1" by simp
  moreover from f have "fst (main sample_lib ok_world ?A) =
         dry_run (header_encode sample_lib) 0 2 [[''Al'', ''al@x.org''], [''Carol'']] ms"
    unfolding p by (simp del: dry_run.simps add: numeral_2_eq_2)
  ultimately have e: "\<exists>ms. length ms = 1 \<and>
         fst (main sample_lib ok_world ?A) =
         dry_run (header_encode sample_lib) 0 2 [[''Al'', ''al@x.org''], [''Carol'']] ms"
    by blast
  from t c n r e show ?thesis by blast
qed

text \<open>
  Two recipients and one malformed line: the progress lines count to 3, and there are
  2 printouts.
\<close>
theorem dry_run_total_counterexample:
  "count_list
     (fst (main sample_lib ok_world
        (sample_args\<lparr>test := True,
           names := [''Al,al@x.org'' @ [NL], ''Carol'' @ [NL], ''Bo,bo@x.org'' @ [NL]]\<rparr>)))
     (Print (''Testing'' @ [NL])) = 2
   \<and> reader [''Al,al@x.org'' @ [NL], ''Carol'' @ [NL], ''Bo,bo@x.org'' @ [NL]] =
       Inr [[''Al'', ''al@x.org''], [''Carol''], [''Bo'', ''bo@x.org'']]
   \<and> fst (main sample_lib ok_world
        (sample_args\<lparr>test := True,
           names := [''Al,al@x.org'' @ [NL], ''Carol'' @ [NL], ''Bo,bo@x.org'' @ [NL]]\<rparr>)) ! 0 =
       Print ''1 / 3: Al <al@x.org>... ''
   \<and> fst (main sample_lib ok_world
        (sample_args\<lparr>test := True,
           names := [''Al,al@x.org'' @ [NL], ''Carol'' @ [NL], ''Bo,bo@x.org'' @ [NL]]\<rparr>)) ! 3 =
       Print (''Improperly formatted user: '' @ [DQUOTE] @ ''Carol'' @ [DQUOTE] @ ''.'' @ [NL])
   \<and> fst (main sample_lib ok_world
        (sample_args\<lparr>test := True,
           names := [''Al,al@x.org'' @ [NL], ''Carol'' @ [NL], ''Bo,bo@x.org'' @ [NL]]\<rparr>)) ! 4 =
       Print ''3 / 3: Bo <bo@x.org>... ''
   \<and> snd (main sample_lib ok_world
        (sample_args\<lparr>test := True,
           names := [''Al,al@x.org'' @ [NL], ''Carol'' @ [NL], ''Bo,bo@x.org'' @ [NL]]\<rparr>)) = None"
  by (simp add: run_defs sample_defs cong: prod.case_cong_weak)



text \<open>
  C8. Without \<open>--html\<close> the body is converted from markdown before the template is
  compiled: the run is the run with \<open>--html\<close> on the converted body. With \<open>--html\<close> the
  conversion is not used at all: the run is the same whatever \<open>markdown\<close> would compute.
  In both cases the body template is compiled from that text: the converted body without
  \<open>--html\<close>, the body itself, unchanged, with it.
\<close>

theorem markdown_before_compilation:
  "(NL \<notin> set s \<longrightarrow>
      main L W (A\<lparr>html := False, message := s @ NL # b\<rparr>) =
      main L W (A\<lparr>html := True, message := s @ NL # markdown L b\<rparr>))
 \<and> (html A \<longrightarrow> main (L\<lparr>markdown := f\<rparr>) W A = main L W A)
 \<and> (NL \<notin> set s \<and> message A = s @ NL # b \<and> prepare L A = Inr (kw, loc, rows) \<longrightarrow>
      from_string L (if html A then b else markdown L b) = Inr (raw_body loc))"
proof (intro conjI impI)
  assume "NL \<notin> set s"
  then show "main L W (A\<lparr>html := False, message := s @ NL # b\<rparr>) =
      main L W (A\<lparr>html := True, message := s @ NL # markdown L b\<rparr>)"
    by (simp add: main_unfold tls_prompt_update prepare_markdown_first for_loop_html_message
          split: sum.splits prod.splits)
next
  assume "html A"
  then have "html (snd (tls_prompt W A))" by (simp add: tls_prompt_keeps)
  then show "main (L\<lparr>markdown := f\<rparr>) W A = main L W A"
    by (simp add: main_unfold prepare_html_skips for_loop_markdown split: sum.splits prod.splits)
next
  assume "NL \<notin> set s \<and> message A = s @ NL # b \<and> prepare L A = Inr (kw, loc, rows)"
  then show "from_string L (if html A then b else markdown L b) = Inr (raw_body loc)"
    using prepare_split [of s A b L kw loc rows] by simp
qed

theorem markdown_before_compilation_witness:
  "NL \<notin> set ''Hi''
   \<and> main sample_lib ok_world (sample_args\<lparr>html := False, message := ''Hi'' @ NL # ''Yo''\<rparr>) =
      main sample_lib ok_world
        (sample_args\<lparr>html := True, message := ''Hi'' @ NL # markdown sample_lib ''Yo''\<rparr>)
   \<and> html sample_args
   \<and> main (sample_lib\<lparr>markdown := (\<lambda>s. s)\<rparr>) ok_world sample_args =
      main sample_lib ok_world sample_args
   \<and> message sample_args = ''Hi'' @ NL # ''Yo''
   \<and> prepare sample_lib sample_args =
      Inr ([''sender_name'' \<mapsto> [], ''sender_email'' \<mapsto> ''me@x.org'', ''sender'' \<mapsto> ''me@x.org''],
           \<lparr>sender_email = ''me@x.org'', raw_subject = ''Hi'', raw_body = ''Yo'', total = 2\<rparr>,
           [[''Al'', ''al@x.org''], [''Bo'', ''bo@x.org'']])
   \<and> from_string sample_lib ''Yo'' = Inr ''Yo''"
proof -
  have a: "NL \<notin> set ''Hi''" by simp
  have b: "html sample_args" by (simp add: sample_args_def)
  have c: "message sample_args = ''Hi'' @ NL # ''Yo''" by (simp add: sample_args_def)
  have p: "prepare sample_lib sample_args =
      Inr ([''sender_name'' \<mapsto> [], ''sender_email'' \<mapsto> ''me@x.org'', ''sender'' \<mapsto> ''me@x.org''],
           \<lparr>sender_email = ''me@x.org'', raw_subject = ''Hi'', raw_body = ''Yo'', total = 2\<rparr>,
           [[''Al'', ''al@x.org''], [''Bo'', ''bo@x.org'']])"
    by (simp add: run_defs sample_defs cong: prod.case_cong_weak)
  from markdown_before_compilation
         [where s = "''Hi''" and L = sample_lib and W = ok_world and A = sample_args and b = "''Yo''"
            and f = "\<lambda>s. s"
            and kw = "[''sender_name'' \<mapsto> [], ''sender_email'' \<mapsto> ''me@x.org'', ''sender'' \<mapsto> ''me@x.org'']"
            and loc = "\<lparr>sender_email = ''me@x.org'', raw_subject = ''Hi'', raw_body = ''Yo'', total = 2\<rparr>"
            and rows = "[[''Al'', ''al@x.org''], [''Bo'', ''bo@x.org'']]"] a b c p
  have "main sample_lib ok_world (sample_args\<lparr>html := False, message := ''Hi'' @ NL # ''Yo''\<rparr>) =
      main sample_lib ok_world
        (sample_args\<lparr>html := True, message := ''Hi'' @ NL # markdown sample_lib ''Yo''\<rparr>)
    \<and> main (sample_lib\<lparr>markdown := (\<lambda>s. s)\<rparr>) ok_world sample_args =
      main sample_lib ok_world sample_args
    \<and> from_string sample_lib ''Yo'' = Inr ''Yo''"
    by simp
  with a b c p show ?thesis by blast
qed



end
